theory Spec2Isabelle
  imports Main "HOL-Library.Word"
begin

unbundle bit_operations_syntax

text \<open>
  A shallow embedding of the Go package \<open>mongodb\<close>: the object identifier generator of
  \<open>id.go\<close> (\<open>NewObjectID\<close>, \<open>readMachineId\<close>, \<open>readRandomUint32\<close> and the three package
  variables) and the names of the update operators of \<open>mongo.go\<close> (\<open>UpdateType.String\<close>).
  Machine integers are words, slices are lists, the package variables are a record that
  \<open>NewObjectID\<close> takes and returns, and every panic is a value.
\<close>

section \<open>Common: run-time panics and checked indexing\<close>

text \<open>
  Go panics when a slice is indexed out of range and when \<open>panic\<close> is called. Both are
  values of the model: every function that can panic returns \<open>panic + 'a\<close>.
\<close>

datatype panic =
    IndexOutOfRange int nat
  | PanicError string

definition index_go :: "'a list \<Rightarrow> int \<Rightarrow> panic + 'a" where
  "index_go xs i =
     (if 0 \<le> i \<and> i < int (length xs) then Inr (xs ! nat i)
      else Inl (IndexOutOfRange i (length xs)))"

section \<open>mongo.go: update operators\<close>

text \<open>\<open>type UpdateType int\<close> with the constants numbered by \<open>iota\<close>.\<close>

type_synonym UpdateType = int

definition UpdateSet :: UpdateType where "UpdateSet = 0"
definition UpdateUnset :: UpdateType where "UpdateUnset = 1"
definition UpdateRename :: UpdateType where "UpdateRename = 2"
definition UpdateInc :: UpdateType where "UpdateInc = 3"
definition UpdateSlicePush :: UpdateType where "UpdateSlicePush = 4"
definition UpdateSlicePushAll :: UpdateType where "UpdateSlicePushAll = 5"
definition UpdateSliceAddToSet :: UpdateType where "UpdateSliceAddToSet = 6"
definition UpdateSlicePop :: UpdateType where "UpdateSlicePop = 7"
definition UpdateSlicePull :: UpdateType where "UpdateSlicePull = 8"
definition UpdateSlicePullAll :: UpdateType where "UpdateSlicePullAll = 9"

definition updateTypes :: "string list" where
  "updateTypes =
     [''$set'', ''$unset'', ''$rename'', ''$inc'', ''$push'', ''$pushAll'',
      ''$addToSet'', ''$pop'', ''$pull'', ''$pullAll'']"

text \<open>The method \<open>func (u UpdateType) String() string\<close>.\<close>

definition UpdateType_String :: "UpdateType \<Rightarrow> panic + string" where
  "UpdateType_String u =
     (if UpdateSet \<le> u \<and> u \<le> UpdateSlicePullAll then index_go updateTypes u
      else index_go updateTypes 0)"

section \<open>id.go: the object identifier generator\<close>

type_synonym u8 = "8 word"
type_synonym u32 = "32 word"
type_synonym i64 = "64 word"

subsection \<open>What the generator takes from the standard library and the host\<close>

text \<open>
  A Go \<open>string\<close> and the contents of a \<open>bytes.Buffer\<close> are byte sequences, modelled as
  \<open>string\<close> (one \<open>char\<close> is one byte). \<open>net.IP\<close> and \<open>net.HardwareAddr\<close> are byte
  slices. The functions of the standard library that \<open>readMachineId\<close> calls are
  parameters of the model, collected in one record.
\<close>

datatype error = Error string

record stdlib =
  IsLoopback :: "u8 list \<Rightarrow> bool"
  IP_String :: "u8 list \<Rightarrow> string"
  HardwareAddr_String :: "u8 list \<Rightarrow> string"
  md5_Sum :: "string \<Rightarrow> u8 list"

text \<open>
  The values of the interface type \<open>net.Addr\<close> that \<open>Interface.Addrs\<close> returns:
  \<open>*net.IPNet\<close> (an address with its mask) or \<open>*net.IPAddr\<close> (an address with its zone).
\<close>

datatype Addr =
    IPNet "u8 list" "u8 list"
  | IPAddr "u8 list" string

record Interface =
  Addrs :: "error + Addr list"
  HardwareAddr :: "u8 list"

record host =
  Hostname :: "error + string"
  Interfaces :: "error + Interface list"
  Getpid :: i64

text \<open>
  An \<open>io.Reader\<close>: the bytes it still delivers, and the error it returns once they are
  used up. \<open>io.ReadFull r buf\<close> reads exactly \<open>n = len(buf)\<close> bytes or fails; when the
  reader ends with \<open>io.EOF\<close> after some but not all of the bytes, the error is
  \<open>io.ErrUnexpectedEOF\<close>.
\<close>

record Reader =
  avail :: "u8 list"
  failure :: error

definition EOF :: error where
  "EOF = Error ''EOF''"

definition ErrUnexpectedEOF :: error where
  "ErrUnexpectedEOF = Error ''unexpected EOF''"

definition ReadFull :: "Reader \<Rightarrow> nat \<Rightarrow> error + (u8 list \<times> Reader)" where
  "ReadFull r n =
     (if n \<le> length (avail r) then Inr (take n (avail r), r\<lparr>avail := drop n (avail r)\<rparr>)
      else if 0 < length (avail r) \<and> failure r = EOF then Inl ErrUnexpectedEOF
      else Inl (failure r))"

text \<open>The builtin \<open>copy(dst, src)\<close>: the first \<open>min(len(dst), len(src))\<close> elements.\<close>

definition copy :: "'a list \<Rightarrow> 'a list \<Rightarrow> 'a list" where
  "copy dst src = take (length dst) src @ drop (length src) dst"

definition WriteString :: "string \<Rightarrow> string \<Rightarrow> string" where
  "WriteString buf s = buf @ s"

text \<open>\<open>binary.BigEndian.PutUint32\<close>, with its bounds check \<open>_ = b[3]\<close>.\<close>

definition PutUint32 :: "u8 list \<Rightarrow> u32 \<Rightarrow> panic + u8 list" where
  "PutUint32 b v =
     (if length b < 4 then Inl (IndexOutOfRange 3 (length b))
      else Inr (b[0 := ucast (drop_bit 24 v), 1 := ucast (drop_bit 16 v),
                  2 := ucast (drop_bit 8 v), 3 := ucast v]))"

text \<open>
  \<open>atomic.AddUint32(addr, delta)\<close>: the new contents of the cell and the value returned,
  which is the new value. Calls are taken one after the other, in the order in which
  their atomic additions take effect.
\<close>

definition AddUint32 :: "u32 \<Rightarrow> u32 \<Rightarrow> u32 \<times> u32" where
  "AddUint32 cell delta = (cell + delta, cell + delta)"

subsection \<open>The package's state and its functions\<close>

text \<open>
  The three package variables. \<open>processId\<close> is a Go \<open>int\<close> (taken as 64 bits wide; only
  its low 16 bits are ever read).
\<close>

record gen_state =
  machineId :: "u8 list"
  processId :: i64
  objectIdCounter :: u32

text \<open>
  \<open>NewObjectID\<close>, given the package state and the value of \<open>time.Now().Unix()\<close>;
  it returns the identifier and the state with the counter advanced.
\<close>

definition NewObjectID :: "gen_state \<Rightarrow> i64 \<Rightarrow> panic + (u8 list \<times> gen_state)" where
  "NewObjectID s now =
     (case PutUint32 (replicate 12 0) (ucast now) of
        Inl e \<Rightarrow> Inl e
      | Inr b0 \<Rightarrow>
     (case index_go (machineId s) 0 of
        Inl e \<Rightarrow> Inl e
      | Inr m0 \<Rightarrow>
     (case index_go (machineId s) 1 of
        Inl e \<Rightarrow> Inl e
      | Inr m1 \<Rightarrow>
     (case index_go (machineId s) 2 of
        Inl e \<Rightarrow> Inl e
      | Inr m2 \<Rightarrow>
        (let b1 = b0[4 := m0, 5 := m1, 6 := m2];
             b2 = b1[7 := ucast (signed_drop_bit 8 (processId s)), 8 := ucast (processId s)];
             (cell, i) = AddUint32 (objectIdCounter s) 1;
             b3 = b2[9 := ucast (drop_bit 16 i), 10 := ucast (drop_bit 8 i), 11 := ucast i]
         in Inr (b3, s\<lparr>objectIdCounter := cell\<rparr>))))))"

text \<open>The inner loop of \<open>readMachineId\<close>, over the addresses of one interface.\<close>

fun addrs_loop :: "stdlib \<Rightarrow> string \<Rightarrow> Addr list \<Rightarrow> string" where
  "addrs_loop L buf [] = buf"
| "addrs_loop L buf (IPNet ip msk # rest) =
     addrs_loop L (if \<not> IsLoopback L ip then WriteString buf (IP_String L ip) else buf) rest"
| "addrs_loop L buf (IPAddr ip zone # rest) = addrs_loop L buf rest"

text \<open>The outer loop, over the interfaces.\<close>

fun interfaces_loop :: "stdlib \<Rightarrow> string \<Rightarrow> Interface list \<Rightarrow> string" where
  "interfaces_loop L buf [] = buf"
| "interfaces_loop L buf (netInterface # rest) =
     (let buf1 = (case Addrs netInterface of
                    Inr a \<Rightarrow> addrs_loop L buf a
                  | Inl err \<Rightarrow> buf);
          mac = HardwareAddr_String L (HardwareAddr netInterface)
      in interfaces_loop L (WriteString buf1 mac) rest)"

definition sourceBuf :: "stdlib \<Rightarrow> host \<Rightarrow> string" where
  "sourceBuf L h =
     (let buf0 = (case Hostname h of
                    Inr hostname \<Rightarrow> WriteString [] hostname
                  | Inl err \<Rightarrow> [])
      in (case Interfaces h of
            Inr netInterfaces \<Rightarrow> interfaces_loop L buf0 netInterfaces
          | Inl err \<Rightarrow> buf0))"

definition readMachineId :: "stdlib \<Rightarrow> host \<Rightarrow> u8 list" where
  "readMachineId L h = copy (replicate 3 0) (md5_Sum L (sourceBuf L h))"

definition readRandomUint32 :: "Reader \<Rightarrow> panic + (u32 \<times> Reader)" where
  "readRandomUint32 r =
     (case ReadFull r 4 of
        Inl (Error msg) \<Rightarrow> Inl (PanicError (''cannot read random object id: '' @ msg))
      | Inr (bytes, r') \<Rightarrow>
          (let b = copy (replicate 4 0) bytes
           in Inr (push_bit 0 (ucast (b ! 0)) OR push_bit 8 (ucast (b ! 1))
                     OR push_bit 16 (ucast (b ! 2)) OR push_bit 24 (ucast (b ! 3)), r')))"

text \<open>
  Package initialisation: the three variables are initialised in the order of their
  declarations; a panic in an initialiser stops the program before \<open>main\<close>.
\<close>

definition package_init :: "stdlib \<Rightarrow> host \<Rightarrow> Reader \<Rightarrow> panic + gen_state" where
  "package_init L h r =
     (let m = readMachineId L h;
          p = Getpid h
      in (case readRandomUint32 r of
            Inl e \<Rightarrow> Inl e
          | Inr (c, r') \<Rightarrow> Inr \<lparr>machineId = m, processId = p, objectIdCounter = c\<rparr>))"

text \<open>
  A run of the process: the calls of \<open>NewObjectID\<close> one after the other, each with the
  clock reading it makes. The identifiers are returned in the order of the calls.
\<close>

fun calls :: "gen_state \<Rightarrow> i64 list \<Rightarrow> panic + (u8 list list \<times> gen_state)" where
  "calls s [] = Inr ([], s)"
| "calls s (now # rest) =
     (case NewObjectID s now of
        Inl e \<Rightarrow> Inl e
      | Inr (b, s1) \<Rightarrow>
          (case calls s1 rest of
             Inl e \<Rightarrow> Inl e
           | Inr (bs, s2) \<Rightarrow> Inr (b # bs, s2)))"

subsection \<open>Reading an identifier\<close>

text \<open>A byte sequence read as a big-endian unsigned number.\<close>

definition be_nat :: "u8 list \<Rightarrow> nat" where
  "be_nat bs = foldl (\<lambda>a x. a * 256 + unat x) 0 bs"

definition timestamp_of :: "u8 list \<Rightarrow> nat" where
  "timestamp_of b = be_nat (take 4 b)"

definition fingerprint_of :: "u8 list \<Rightarrow> u8 list" where
  "fingerprint_of b = take 5 (drop 4 b)"

definition counter_of :: "u8 list \<Rightarrow> nat" where
  "counter_of b = be_nat (drop 9 b)"

text \<open>The order of \<open>bytes.Compare\<close>: lexicographic on unsigned bytes.\<close>

fun bytes_less :: "u8 list \<Rightarrow> u8 list \<Rightarrow> bool" where
  "bytes_less [] [] = False"
| "bytes_less [] (y # ys) = True"
| "bytes_less (x # xs) [] = False"
| "bytes_less (x # xs) (y # ys) = (x < y \<or> (x = y \<and> bytes_less xs ys))"

text \<open>The identifiers of a run (none when the run panics).\<close>

definition ids_of :: "panic + (u8 list list \<times> gen_state) \<Rightarrow> u8 list list" where
  "ids_of r = (case r of Inl e \<Rightarrow> [] | Inr (bs, s) \<Rightarrow> bs)"

subsection \<open>The hashed buffer, described\<close>

text \<open>
  The buffer in words: the hostname when it is obtainable, then for every interface the
  string forms of its non-loopback addresses followed by the string of its hardware
  address. Which addresses of an interface's listing count is a parameter: all of them, as
  the specification says (\<open>described_buffer\<close>), or those of the \<open>*net.IPNet\<close> entries only
  (\<open>ipnet_buffer\<close>). A listing that failed has no addresses.
\<close>

fun all_addresses :: "Addr list \<Rightarrow> u8 list list" where
  "all_addresses [] = []"
| "all_addresses (IPNet ip msk # rest) = ip # all_addresses rest"
| "all_addresses (IPAddr ip zone # rest) = ip # all_addresses rest"

fun ipnet_addresses :: "Addr list \<Rightarrow> u8 list list" where
  "ipnet_addresses [] = []"
| "ipnet_addresses (IPNet ip msk # rest) = ip # ipnet_addresses rest"
| "ipnet_addresses (IPAddr ip zone # rest) = ipnet_addresses rest"

definition listed :: "Interface \<Rightarrow> Addr list" where
  "listed i = (case Addrs i of Inr a \<Rightarrow> a | Inl err \<Rightarrow> [])"

definition hostname_part :: "host \<Rightarrow> string" where
  "hostname_part h = (case Hostname h of Inr hostname \<Rightarrow> hostname | Inl err \<Rightarrow> [])"

definition interface_part ::
  "stdlib \<Rightarrow> (Addr list \<Rightarrow> u8 list list) \<Rightarrow> Interface \<Rightarrow> string" where
  "interface_part L sel i =
     concat (map (IP_String L) (filter (\<lambda>ip. \<not> IsLoopback L ip) (sel (listed i))))
       @ HardwareAddr_String L (HardwareAddr i)"

definition interfaces_part ::
  "stdlib \<Rightarrow> (Addr list \<Rightarrow> u8 list list) \<Rightarrow> host \<Rightarrow> string" where
  "interfaces_part L sel h =
     (case Interfaces h of
        Inr netInterfaces \<Rightarrow> concat (map (interface_part L sel) netInterfaces)
      | Inl err \<Rightarrow> [])"

definition described_buffer :: "stdlib \<Rightarrow> host \<Rightarrow> string" where
  "described_buffer L h = hostname_part h @ interfaces_part L all_addresses h"

definition ipnet_buffer :: "stdlib \<Rightarrow> host \<Rightarrow> string" where
  "ipnet_buffer L h = hostname_part h @ interfaces_part L ipnet_addresses h"

subsection \<open>The MD5 digest\<close>

text \<open>
  The digest of \<open>crypto/md5\<close>, written after RFC 1321: the message is padded to a
  multiple of 64 bytes and consumed in blocks of 16 little-endian words, 64 steps a block.
  The theorems about \<open>readMachineId\<close> hold for any digest function; this one is the digest
  of the concrete values below.
\<close>

definition md5_K :: "u32 list" where
  "md5_K =
     [0xD76AA478, 0xE8C7B756, 0x242070DB, 0xC1BDCEEE, 0xF57C0FAF, 0x4787C62A,
      0xA8304613, 0xFD469501, 0x698098D8, 0x8B44F7AF, 0xFFFF5BB1, 0x895CD7BE,
      0x6B901122, 0xFD987193, 0xA679438E, 0x49B40821, 0xF61E2562, 0xC040B340,
      0x265E5A51, 0xE9B6C7AA, 0xD62F105D, 0x02441453, 0xD8A1E681, 0xE7D3FBC8,
      0x21E1CDE6, 0xC33707D6, 0xF4D50D87, 0x455A14ED, 0xA9E3E905, 0xFCEFA3F8,
      0x676F02D9, 0x8D2A4C8A, 0xFFFA3942, 0x8771F681, 0x6D9D6122, 0xFDE5380C,
      0xA4BEEA44, 0x4BDECFA9, 0xF6BB4B60, 0xBEBFBC70, 0x289B7EC6, 0xEAA127FA,
      0xD4EF3085, 0x04881D05, 0xD9D4D039, 0xE6DB99E5, 0x1FA27CF8, 0xC4AC5665,
      0xF4292244, 0x432AFF97, 0xAB9423A7, 0xFC93A039, 0x655B59C3, 0x8F0CCC92,
      0xFFEFF47D, 0x85845DD1, 0x6FA87E4F, 0xFE2CE6E0, 0xA3014314, 0x4E0811A1,
      0xF7537E82, 0xBD3AF235, 0x2AD7D2BB, 0xEB86D391]"

definition md5_s :: "nat list" where
  "md5_s =
     [7, 12, 17, 22, 7, 12, 17, 22, 7, 12, 17, 22, 7, 12, 17, 22,
      5, 9, 14, 20, 5, 9, 14, 20, 5, 9, 14, 20, 5, 9, 14, 20,
      4, 11, 16, 23, 4, 11, 16, 23, 4, 11, 16, 23, 4, 11, 16, 23,
      6, 10, 15, 21, 6, 10, 15, 21, 6, 10, 15, 21, 6, 10, 15, 21]"

definition rotl32 :: "u32 \<Rightarrow> nat \<Rightarrow> u32" where
  "rotl32 x n = push_bit n x OR drop_bit (32 - n) x"

definition md5_F :: "nat \<Rightarrow> u32 \<Rightarrow> u32 \<Rightarrow> u32 \<Rightarrow> u32" where
  "md5_F i b c d =
     (if i < 16 then (b AND c) OR (NOT b AND d)
      else if i < 32 then (d AND b) OR (NOT d AND c)
      else if i < 48 then b XOR c XOR d
      else c XOR (b OR NOT d))"

definition md5_g :: "nat \<Rightarrow> nat" where
  "md5_g i =
     (if i < 16 then i
      else if i < 32 then (5 * i + 1) mod 16
      else if i < 48 then (3 * i + 5) mod 16
      else (7 * i) mod 16)"

type_synonym md5_state = "u32 \<times> u32 \<times> u32 \<times> u32"

fun md5_rounds :: "u32 list \<Rightarrow> nat list \<Rightarrow> md5_state \<Rightarrow> md5_state" where
  "md5_rounds M [] st = st"
| "md5_rounds M (i # rest) (a, b, c, d) =
     md5_rounds M rest
       (d, b + rotl32 (md5_F i b c d + a + md5_K ! i + M ! md5_g i) (md5_s ! i), b, c)"

fun le_words :: "u8 list \<Rightarrow> u32 list" where
  "le_words (b0 # b1 # b2 # b3 # rest) =
     (ucast b0 OR push_bit 8 (ucast b1) OR push_bit 16 (ucast b2) OR push_bit 24 (ucast b3))
       # le_words rest"
| "le_words bs = []"

definition md5_block :: "u8 list \<Rightarrow> md5_state \<Rightarrow> md5_state" where
  "md5_block blk st =
     (case st of (a, b, c, d) \<Rightarrow>
        (case md5_rounds (le_words blk) [0..<64] st of (a', b', c', d') \<Rightarrow>
           (a + a', b + b', c + c', d + d')))"

fun md5_blocks :: "u8 list \<Rightarrow> md5_state \<Rightarrow> md5_state" where
  "md5_blocks bs st =
     (if length bs < 64 then st else md5_blocks (drop 64 bs) (md5_block (take 64 bs) st))"

declare md5_blocks.simps [simp del]

definition md5_pad :: "u8 list \<Rightarrow> u8 list" where
  "md5_pad m =
     m @ [0x80] @ replicate ((119 - length m mod 64) mod 64) 0
       @ map (\<lambda>k. ucast (drop_bit (8 * k) (of_nat (8 * length m) :: 64 word))) [0..<8]"

definition le_bytes :: "u32 \<Rightarrow> u8 list" where
  "le_bytes w = [ucast w, ucast (drop_bit 8 w), ucast (drop_bit 16 w), ucast (drop_bit 24 w)]"

definition md5 :: "string \<Rightarrow> u8 list" where
  "md5 m =
     (case md5_blocks (md5_pad (map of_char m)) (0x67452301, 0xEFCDAB89, 0x98BADCFE, 0x10325476)
      of (a, b, c, d) \<Rightarrow> le_bytes a @ le_bytes b @ le_bytes c @ le_bytes d)"

subsection \<open>Concrete values\<close>

text \<open>
  A state whose counter is two steps before the 24-bit field wraps. A standard library
  with the MD5 digest and, for the other three functions, tables that give what Go gives on
  the addresses of the host below. A host whose second interface lists one address as a
  \<open>*net.IPNet\<close> and one as a \<open>*net.IPAddr\<close>; a host without a hostname and without an
  interface list; the first host without its hostname, and without its interface list; a
  reader that delivers 5 bytes and one that delivers 2.
\<close>

definition example_state :: gen_state where
  "example_state = \<lparr>machineId = [0xAB, 0xCD, 0xEF], processId = 0x12345,
                     objectIdCounter = 0xFFFFFD\<rparr>"

definition example_stdlib :: stdlib where
  "example_stdlib =
     \<lparr>IsLoopback = (\<lambda>ip. case ip of [] \<Rightarrow> False | x # rest \<Rightarrow> x = 127),
      IP_String = (\<lambda>ip. if ip = [10, 0, 0, 1] then ''10.0.0.1''
                         else if ip = [10, 0, 0, 2] then ''10.0.0.2''
                         else if ip = [127, 0, 0, 1] then ''127.0.0.1'' else ''?''),
      HardwareAddr_String = (\<lambda>hw. if hw = [] then [] else ''02:00:00:00:00:01''),
      md5_Sum = md5\<rparr>"

definition example_host :: host where
  "example_host =
     \<lparr>Hostname = Inr ''db1'',
      Interfaces = Inr
        [\<lparr>Addrs = Inr [IPNet [127, 0, 0, 1] [255, 0, 0, 0]], HardwareAddr = []\<rparr>,
         \<lparr>Addrs = Inr [IPNet [10, 0, 0, 1] [255, 255, 255, 0], IPAddr [10, 0, 0, 2] []],
          HardwareAddr = [2, 0, 0, 0, 0, 1]\<rparr>],
      Getpid = 0x12345\<rparr>"

definition bare_host :: host where
  "bare_host = \<lparr>Hostname = Inl (Error ''no hostname''),
                 Interfaces = Inl (Error ''no interfaces''), Getpid = 1\<rparr>"

definition nameless_host :: host where
  "nameless_host = example_host\<lparr>Hostname := Inl (Error ''no hostname'')\<rparr>"

definition offline_host :: host where
  "offline_host = example_host\<lparr>Interfaces := Inl (Error ''no interfaces'')\<rparr>"

definition example_reader :: Reader where
  "example_reader = \<lparr>avail = [0x78, 0x56, 0x34, 0x12, 0x99], failure = EOF\<rparr>"

definition failing_reader :: Reader where
  "failing_reader = \<lparr>avail = [0x78, 0x56], failure = EOF\<rparr>"

section \<open>The update operators' names\<close>

lemma UpdateType_String_in_range:
  "0 \<le> u \<Longrightarrow> u \<le> 9 \<Longrightarrow> UpdateType_String u = Inr (updateTypes ! nat u)"
  by (simp add: UpdateType_String_def index_go_def UpdateSet_def UpdateSlicePullAll_def
      updateTypes_def)

lemma UpdateType_String_out_of_range:
  "u < 0 \<or> 9 < u \<Longrightarrow> UpdateType_String u = Inr ''$set''"
  by (auto simp add: UpdateType_String_def index_go_def UpdateSet_def UpdateSlicePullAll_def
      updateTypes_def)

text \<open>
  Claim C10. For every \<open>UpdateType\<close> value \<open>u\<close> with \<open>UpdateSet \<le> u \<le> UpdateSlicePullAll\<close>,
  \<open>u.String()\<close> returns the operator at index \<open>u\<close> of the list \<open>$set\<close>, \<open>$unset\<close>,
  \<open>$rename\<close>, \<open>$inc\<close>, \<open>$push\<close>, \<open>$pushAll\<close>, \<open>$addToSet\<close>, \<open>$pop\<close>, \<open>$pull\<close>,
  \<open>$pullAll\<close>; for every other \<open>u\<close> (negative or greater than \<open>UpdateSlicePullAll\<close>) it
  returns \<open>$set\<close>. It never panics.
\<close>

theorem C10_UpdateType_String:
  "(UpdateSet \<le> u \<and> u \<le> UpdateSlicePullAll \<longrightarrow>
      UpdateType_String u =
        Inr ([''$set'', ''$unset'', ''$rename'', ''$inc'', ''$push'', ''$pushAll'',
              ''$addToSet'', ''$pop'', ''$pull'', ''$pullAll''] ! nat u))
   \<and> (u < UpdateSet \<or> UpdateSlicePullAll < u \<longrightarrow> UpdateType_String u = Inr ''$set'')"
  using UpdateType_String_in_range [of u] UpdateType_String_out_of_range [of u]
  by (simp add: UpdateSet_def UpdateSlicePullAll_def updateTypes_def)

theorem C10_UpdateType_String_witness:
  "UpdateType_String UpdateInc = Inr ''$inc''
   \<and> UpdateType_String UpdateSlicePullAll = Inr ''$pullAll''
   \<and> UpdateType_String 10 = Inr ''$set''
   \<and> UpdateType_String (- 1) = Inr ''$set''"
  using C10_UpdateType_String [of UpdateInc] C10_UpdateType_String [of UpdateSlicePullAll]
    C10_UpdateType_String [of 10] C10_UpdateType_String [of "- 1"]
  by (simp add: UpdateSet_def UpdateInc_def UpdateSlicePullAll_def)

section \<open>Bytes and numbers\<close>

text \<open>
  The conversion \<open>byte(x)\<close> keeps the low 8 bits, so the bytes \<open>byte(x >> 8k)\<close> are the
  base-256 digits of \<open>x\<close>.
\<close>

lemma unat_ucast_byte: "unat (ucast (v::'a::len word) :: u8) = unat v mod 256"
  by (simp add: unsigned_ucast_eq take_bit_eq_mod)

lemma digits3:
  fixes n :: nat
  shows "(n div 2^16 mod 256 * 256 + n div 2^8 mod 256) * 256 + n mod 256 = n mod 2^24"
proof -
  define q1 where "q1 = n div 256"
  define q2 where "q2 = q1 div 256"
  have d8: "n div 2^8 = q1" by (simp add: q1_def)
  have d16: "n div 2^16 = q2" by (simp add: q1_def q2_def div_mult2_eq)
  have "n mod 2^24 = n mod (256 * (256 * 256))" by simp
  also have "\<dots> = 256 * (q1 mod (256 * 256)) + n mod 256"
    unfolding q1_def by (rule mod_mult2_eq)
  also have "q1 mod (256 * 256) = 256 * (q2 mod 256) + q1 mod 256"
    unfolding q2_def by (rule mod_mult2_eq)
  finally show ?thesis unfolding d8 d16 by (simp add: algebra_simps)
qed

lemma digits2:
  fixes n :: nat
  shows "n div 2^8 mod 256 * 256 + n mod 256 = n mod 2^16"
proof -
  have "n mod 2^16 = n mod (256 * 256)" by simp
  also have "\<dots> = 256 * (n div 256 mod 256) + n mod 256"
    by (rule mod_mult2_eq)
  finally show ?thesis by (simp add: algebra_simps)
qed

lemma digits4:
  fixes n :: nat
  shows "((n div 2^24 mod 256 * 256 + n div 2^16 mod 256) * 256 + n div 2^8 mod 256) * 256
           + n mod 256 = n mod 2^32"
proof -
  define q1 where "q1 = n div 256"
  have d8: "n div 2^8 = q1" by (simp add: q1_def)
  have d16: "n div 2^16 = q1 div 2^8" by (simp add: q1_def div_mult2_eq)
  have d24: "n div 2^24 = q1 div 2^16" by (simp add: q1_def div_mult2_eq)
  have "n mod 2^32 = n mod (256 * 2^24)" by simp
  also have "\<dots> = 256 * (q1 mod 2^24) + n mod 256"
    unfolding q1_def by (rule mod_mult2_eq)
  finally show ?thesis unfolding d8 d16 d24 digits3[of q1, symmetric] by (simp add: algebra_simps)
qed

lemma be_nat_4:
  "be_nat [ucast (drop_bit 24 v), ucast (drop_bit 16 v), ucast (drop_bit 8 v),
           ucast (v::'a::len word)] = unat v mod 2 ^ 32"
proof -
  have "be_nat [ucast (drop_bit 24 v), ucast (drop_bit 16 v), ucast (drop_bit 8 v), ucast v]
      = ((unat v div 2^24 mod 256 * 256 + unat v div 2^16 mod 256) * 256
          + unat v div 2^8 mod 256) * 256 + unat v mod 256"
    unfolding be_nat_def foldl.simps unat_ucast_byte unat_drop_bit_eq
    by (simp add: drop_bit_eq_div)
  then show ?thesis by (simp only: digits4)
qed

lemma be_nat_3:
  "be_nat [ucast (drop_bit 16 v), ucast (drop_bit 8 v), ucast (v::'a::len word)]
     = unat v mod 2 ^ 24"
proof -
  have "be_nat [ucast (drop_bit 16 v), ucast (drop_bit 8 v), ucast v]
      = (unat v div 2^16 mod 256 * 256 + unat v div 2^8 mod 256) * 256 + unat v mod 256"
    unfolding be_nat_def foldl.simps unat_ucast_byte unat_drop_bit_eq
    by (simp add: drop_bit_eq_div)
  then show ?thesis by (simp only: digits3)
qed

lemma be_nat_2:
  "be_nat [ucast (drop_bit 8 v), ucast (v::'a::len word)] = unat v mod 2 ^ 16"
proof -
  have "be_nat [ucast (drop_bit 8 v), ucast v] = unat v div 2^8 mod 256 * 256 + unat v mod 256"
    unfolding be_nat_def foldl.simps unat_ucast_byte unat_drop_bit_eq
    by (simp add: drop_bit_eq_div)
  then show ?thesis by (simp only: digits2)
qed

lemma ucast_signed_drop_bit_8:
  "(ucast (signed_drop_bit 8 (p::i64)) :: u8) = ucast (drop_bit 8 p)"
  by (rule bit_word_eqI) (auto simp add: bit_simps)

section \<open>One call of \<open>NewObjectID\<close>, and runs of calls\<close>

lemma NewObjectID_explicit:
  assumes "length (machineId s) = 3"
  shows "NewObjectID s now =
    Inr ([ucast (drop_bit 24 (ucast now :: u32)), ucast (drop_bit 16 (ucast now :: u32)),
          ucast (drop_bit 8 (ucast now :: u32)), ucast (ucast now :: u32),
          machineId s ! 0, machineId s ! 1, machineId s ! 2,
          ucast (signed_drop_bit 8 (processId s)), ucast (processId s),
          ucast (drop_bit 16 (objectIdCounter s + 1)), ucast (drop_bit 8 (objectIdCounter s + 1)),
          ucast (objectIdCounter s + 1)],
         s\<lparr>objectIdCounter := objectIdCounter s + 1\<rparr>)"
  using assms
  by (simp add: NewObjectID_def PutUint32_def index_go_def AddUint32_def eval_nat_numeral)

lemma NewObjectID_state:
  "NewObjectID s now = Inr (b, s') \<Longrightarrow> s' = s\<lparr>objectIdCounter := objectIdCounter s + 1\<rparr>"
  by (auto simp add: NewObjectID_def AddUint32_def Let_def split: sum.splits)

lemma nth_list_3: "length m = 3 \<Longrightarrow> [m ! 0, m ! 1, m ! 2] = m"
  by (auto simp add: eval_nat_numeral length_Suc_conv)

lemma calls_total:
  "length (machineId s) = 3 \<Longrightarrow>
   \<exists>ids. calls s ts = Inr (ids, s\<lparr>objectIdCounter := objectIdCounter s + of_nat (length ts)\<rparr>)
      \<and> length ids = length ts"
proof (induction ts arbitrary: s)
  case Nil
  then show ?case by simp
next
  case (Cons t ts)
  let ?s1 = "s\<lparr>objectIdCounter := objectIdCounter s + 1\<rparr>"
  have "length (machineId ?s1) = 3" using Cons.prems by simp
  from Cons.IH[OF this] obtain ids where
    "calls ?s1 ts = Inr (ids, ?s1\<lparr>objectIdCounter := objectIdCounter ?s1 + of_nat (length ts)\<rparr>)"
    "length ids = length ts" by blast
  then show ?case
    by (simp add: NewObjectID_explicit[OF Cons.prems] add.assoc add.commute)
qed

lemma calls_nth:
  "calls s ts = Inr (ids, s') \<Longrightarrow> k < length ts \<Longrightarrow>
   NewObjectID (s\<lparr>objectIdCounter := objectIdCounter s + of_nat k\<rparr>) (ts ! k)
     = Inr (ids ! k, s\<lparr>objectIdCounter := objectIdCounter s + of_nat k + 1\<rparr>)"
proof (induction ts arbitrary: s ids k)
  case Nil
  then show ?case by simp
next
  case (Cons t ts)
  from Cons.prems(1) obtain b s1 bs where
    a: "NewObjectID s t = Inr (b, s1)" and c: "calls s1 ts = Inr (bs, s')" and i: "ids = b # bs"
    by (auto split: sum.splits)
  have s1: "s1 = s\<lparr>objectIdCounter := objectIdCounter s + 1\<rparr>"
    using a by (rule NewObjectID_state)
  show ?case
  proof (cases k)
    case 0
    then show ?thesis using a i s1 by simp
  next
    case (Suc j)
    then have "j < length ts" using Cons.prems(2) by simp
    from Cons.IH[OF c this] show ?thesis
      using Suc i s1 by (simp add: add.assoc add.commute add.left_commute)
  qed
qed

lemma NewObjectID_fields:
  assumes "length (machineId s) = 3"
  shows "\<exists>b. NewObjectID s now = Inr (b, s\<lparr>objectIdCounter := objectIdCounter s + 1\<rparr>)
     \<and> length b = 12
     \<and> timestamp_of b = unat now mod 2 ^ 32
     \<and> fingerprint_of b = machineId s @ [ucast (drop_bit 8 (processId s)), ucast (processId s)]
     \<and> counter_of b = unat (objectIdCounter s + 1) mod 2 ^ 24"
proof -
  have t: "unat (ucast now :: u32) mod 2 ^ 32 = unat now mod 2 ^ 32"
    by (simp add: unsigned_ucast_eq take_bit_eq_mod)
  show ?thesis
    unfolding NewObjectID_explicit[OF assms] timestamp_of_def fingerprint_of_def counter_of_def
    using t nth_list_3[OF assms]
    by (simp add: be_nat_4 be_nat_3 ucast_signed_drop_bit_8)
qed

lemma mod_2_32_mod_2_24: "(n::nat) mod 2 ^ 32 mod 2 ^ 24 = n mod 2 ^ 24"
  by (rule mod_mod_cancel) (simp add: le_imp_power_dvd)

lemma unat_add_of_nat_mod:
  "unat (c + of_nat k :: u32) mod 2 ^ 24 = (unat c + k) mod 2 ^ 24"
proof -
  have "unat (c + of_nat k :: u32) = (unat c + k mod 2 ^ 32) mod 2 ^ 32"
    by (simp add: unat_word_ariths unat_of_nat)
  then have "unat (c + of_nat k :: u32) mod 2 ^ 24 = (unat c + k mod 2 ^ 32) mod 2 ^ 24"
    by (simp only: mod_2_32_mod_2_24)
  also have "\<dots> = (unat c mod 2 ^ 24 + k mod 2 ^ 32 mod 2 ^ 24) mod 2 ^ 24"
    by (simp only: mod_add_eq)
  also have "\<dots> = (unat c mod 2 ^ 24 + k mod 2 ^ 24) mod 2 ^ 24"
    by (simp only: mod_2_32_mod_2_24)
  also have "\<dots> = (unat c + k) mod 2 ^ 24"
    by (simp only: mod_add_eq)
  finally show ?thesis .
qed

lemma calls_fields:
  assumes wf: "length (machineId s) = 3" and run: "calls s ts = Inr (ids, s')"
    and k: "k < length ts"
  shows "length (ids ! k) = 12
     \<and> timestamp_of (ids ! k) = unat (ts ! k) mod 2 ^ 32
     \<and> fingerprint_of (ids ! k)
         = machineId s @ [ucast (drop_bit 8 (processId s)), ucast (processId s)]
     \<and> counter_of (ids ! k) = (unat (objectIdCounter s) + k + 1) mod 2 ^ 24"
proof -
  let ?sk = "s\<lparr>objectIdCounter := objectIdCounter s + of_nat k\<rparr>"
  have wfk: "length (machineId ?sk) = 3" using wf by simp
  from NewObjectID_fields[OF wfk, of "ts ! k"] calls_nth[OF run k]
  have "length (ids ! k) = 12" "timestamp_of (ids ! k) = unat (ts ! k) mod 2 ^ 32"
    "fingerprint_of (ids ! k)
       = machineId s @ [ucast (drop_bit 8 (processId s)), ucast (processId s)]"
    "counter_of (ids ! k) = unat (objectIdCounter s + of_nat k + 1) mod 2 ^ 24"
    by auto
  moreover have "unat (objectIdCounter s + of_nat k + 1) mod 2 ^ 24
      = (unat (objectIdCounter s) + k + 1) mod 2 ^ 24"
    using unat_add_of_nat_mod[of "objectIdCounter s" "Suc k"] by (simp add: ac_simps)
  ultimately show ?thesis by simp
qed

lemma readMachineId_length: "length (readMachineId L h) = 3"
  by (simp add: readMachineId_def copy_def)

lemma package_init_state:
  "package_init L h r = Inr s \<Longrightarrow> machineId s = readMachineId L h \<and> processId s = Getpid h"
  by (auto simp add: package_init_def Let_def split: sum.splits)

section \<open>Identifiers as numbers, and their byte order\<close>

lemma be_nat_Nil: "be_nat [] = 0"
  by (simp add: be_nat_def)

lemma be_nat_snoc: "be_nat (xs @ [x]) = be_nat xs * 256 + unat x"
  by (simp add: be_nat_def)

lemma be_nat_append: "be_nat (xs @ ys) = be_nat xs * 256 ^ length ys + be_nat ys"
proof (induction ys rule: rev_induct)
  case Nil
  then show ?case by (simp add: be_nat_Nil)
next
  case (snoc y ys)
  have "be_nat (xs @ ys @ [y]) = be_nat ((xs @ ys) @ [y])" by simp
  also have "\<dots> = be_nat (xs @ ys) * 256 + unat y" by (rule be_nat_snoc)
  finally show ?case by (simp add: snoc.IH be_nat_snoc algebra_simps)
qed

lemma be_nat_Cons: "be_nat (x # xs) = unat x * 256 ^ length xs + be_nat xs"
  using be_nat_append[of "[x]" xs] be_nat_snoc[of "[]" x] by (simp add: be_nat_Nil)

lemma be_nat_less: "be_nat xs < 256 ^ length xs"
proof (induction xs rule: rev_induct)
  case Nil
  then show ?case by (simp add: be_nat_Nil)
next
  case (snoc x xs)
  have "unat x < 256" using unsigned_less[of x] by simp
  moreover have "be_nat xs + 1 \<le> 256 ^ length xs" using snoc.IH by simp
  then have "(be_nat xs + 1) * 256 \<le> 256 ^ length xs * 256" by (rule mult_le_mono1)
  ultimately show ?case by (simp add: be_nat_snoc)
qed

lemma bytes_less_iff:
  "length xs = length ys \<Longrightarrow> bytes_less xs ys \<longleftrightarrow> be_nat xs < be_nat ys"
proof (induction xs ys rule: list_induct2)
  case Nil
  then show ?case by (simp add: be_nat_Nil)
next
  case (Cons x xs y ys)
  let ?P = "(256::nat) ^ length ys"
  have bxs: "be_nat xs < ?P" using be_nat_less[of xs] Cons.hyps by simp
  have bys: "be_nat ys < ?P" using be_nat_less[of ys] by simp
  consider (lt) "unat x < unat y" | (eq) "unat x = unat y" | (gt) "unat y < unat x"
    by linarith
  then show ?case
  proof cases
    case lt
    then have "(unat x + 1) * ?P \<le> unat y * ?P" by (intro mult_le_mono1) simp
    then have "unat x * ?P + be_nat xs < unat y * ?P + be_nat ys" using bxs by simp
    moreover have "x < y" using lt by (simp add: word_less_nat_alt)
    ultimately show ?thesis using Cons.hyps by (simp add: be_nat_Cons)
  next
    case eq
    then have "x = y" by (simp add: word_unat_eq_iff)
    then show ?thesis using Cons by (simp add: be_nat_Cons)
  next
    case gt
    then have "(unat y + 1) * ?P \<le> unat x * ?P" by (intro mult_le_mono1) simp
    then have "\<not> unat x * ?P + be_nat xs < unat y * ?P + be_nat ys" using bys by simp
    moreover have "\<not> x < y" "x \<noteq> y" using gt by (auto simp add: word_less_nat_alt)
    ultimately show ?thesis using Cons.hyps by (simp add: be_nat_Cons)
  qed
qed

lemma identifier_value:
  assumes "length b = 12"
  shows "be_nat b = timestamp_of b * 2 ^ 64 + be_nat (fingerprint_of b) * 2 ^ 24 + counter_of b"
proof -
  have "b = take 4 b @ take 5 (drop 4 b) @ drop 9 b"
    by (metis append_take_drop_id drop_drop numeral_Bit1 numeral_Bit0 add.commute
        append.assoc take_add)
  then have "be_nat b = be_nat (take 4 b @ take 5 (drop 4 b) @ drop 9 b)" by simp
  also have "\<dots> = timestamp_of b * 2 ^ 64 + be_nat (fingerprint_of b) * 2 ^ 24 + counter_of b"
    using assms
    by (simp add: be_nat_append timestamp_of_def fingerprint_of_def counter_of_def algebra_simps)
  finally show ?thesis .
qed

lemma bytes_less_total:
  "length xs = length ys \<Longrightarrow> xs = ys \<or> bytes_less xs ys \<or> bytes_less ys xs"
  by (induction xs ys rule: list_induct2) auto

lemma be_nat_inj:
  assumes "length xs = length ys" and "be_nat xs = be_nat ys"
  shows "xs = ys"
  using bytes_less_total[OF assms(1)] bytes_less_iff[OF assms(1)]
    bytes_less_iff[OF assms(1)[symmetric]] assms(2) by auto

lemma identifier_eqI:
  assumes "length a = 12" "length b = 12"
    and "timestamp_of a = timestamp_of b" "fingerprint_of a = fingerprint_of b"
    and "counter_of a = counter_of b"
  shows "a = b"
proof (rule be_nat_inj)
  show "length a = length b" using assms by simp
  show "be_nat a = be_nat b"
    using assms by (simp add: identifier_value)
qed

lemma counter_of_less: "length b = 12 \<Longrightarrow> counter_of b < 2 ^ 24"
  using be_nat_less[of "drop 9 b"] by (simp add: counter_of_def)

lemma fingerprint_of_less: "length b = 12 \<Longrightarrow> be_nat (fingerprint_of b) < 2 ^ 40"
  using be_nat_less[of "take 5 (drop 4 b)"] by (simp add: fingerprint_of_def)

lemma identifier_less_iff:
  assumes a: "length a = 12" and b: "length b = 12"
    and f: "fingerprint_of a = fingerprint_of b"
  shows "bytes_less a b \<longleftrightarrow>
    timestamp_of a < timestamp_of b
    \<or> (timestamp_of a = timestamp_of b \<and> counter_of a < counter_of b)"
proof -
  have ca: "counter_of a < 2 ^ 24" and cb: "counter_of b < 2 ^ 24"
    using counter_of_less[OF a] counter_of_less[OF b] by simp_all
  have fb: "be_nat (fingerprint_of b) < 2 ^ 40" using b by (rule fingerprint_of_less)
  have "bytes_less a b \<longleftrightarrow> be_nat a < be_nat b"
    using a b by (simp add: bytes_less_iff)
  also have "\<dots> \<longleftrightarrow> timestamp_of a * 2 ^ 64 + counter_of a
       < timestamp_of b * 2 ^ 64 + counter_of b"
    using a b f by (simp add: identifier_value)
  also have "\<dots> \<longleftrightarrow> timestamp_of a < timestamp_of b
    \<or> (timestamp_of a = timestamp_of b \<and> counter_of a < counter_of b)"
    using ca cb by auto
  finally show ?thesis .
qed

lemma counter_eq_iff:
  fixes c i j :: nat
  assumes "i \<le> j"
  shows "(c + i + 1) mod 2 ^ 24 = (c + j + 1) mod 2 ^ 24 \<longleftrightarrow> 2 ^ 24 dvd (j - i)"
proof -
  have "(c + j + 1) mod 2 ^ 24 = (c + i + 1) mod 2 ^ 24 \<longleftrightarrow> 2 ^ 24 dvd (c + j + 1) - (c + i + 1)"
    using assms by (intro mod_eq_dvd_iff_nat) simp
  moreover have "(c + j + 1) - (c + i + 1) = j - i" by simp
  ultimately show ?thesis by (simp only: eq_commute[of "(c + i + 1) mod 2 ^ 24"])
qed


lemma calls_eq_iff:
  assumes wf: "length (machineId s) = 3" and run: "calls s ts = Inr (ids, s')"
    and ij: "i \<le> j" "j < length ts"
  shows "ids ! i = ids ! j \<longleftrightarrow>
    unat (ts ! i) mod 2 ^ 32 = unat (ts ! j) mod 2 ^ 32 \<and> 2 ^ 24 dvd (j - i)"
proof -
  let ?c = "unat (objectIdCounter s)"
  have i: "i < length ts" using ij by (rule le_less_trans)
  from calls_fields[OF wf run i]
  have li: "length (ids ! i) = 12" and ti: "timestamp_of (ids ! i) = unat (ts ! i) mod 2 ^ 32"
    and fi: "fingerprint_of (ids ! i)
         = machineId s @ [ucast (drop_bit 8 (processId s)), ucast (processId s)]"
    and ci: "counter_of (ids ! i) = (?c + i + 1) mod 2 ^ 24"
    by blast+
  from calls_fields[OF wf run ij(2)]
  have lj: "length (ids ! j) = 12" and tj: "timestamp_of (ids ! j) = unat (ts ! j) mod 2 ^ 32"
    and fj: "fingerprint_of (ids ! j)
         = machineId s @ [ucast (drop_bit 8 (processId s)), ucast (processId s)]"
    and cj: "counter_of (ids ! j) = (?c + j + 1) mod 2 ^ 24"
    by blast+
  note ce = counter_eq_iff[OF ij(1), of ?c]
  show ?thesis
  proof
    assume e: "ids ! i = ids ! j"
    have "timestamp_of (ids ! i) = timestamp_of (ids ! j)" by (simp only: e)
    then have 1: "unat (ts ! i) mod 2 ^ 32 = unat (ts ! j) mod 2 ^ 32" by (simp only: ti tj)
    have "counter_of (ids ! i) = counter_of (ids ! j)" by (simp only: e)
    then have "(?c + i + 1) mod 2 ^ 24 = (?c + j + 1) mod 2 ^ 24" by (simp only: ci cj)
    then have 2: "2 ^ 24 dvd (j - i)" by (simp only: ce)
    from 1 2 show "unat (ts ! i) mod 2 ^ 32 = unat (ts ! j) mod 2 ^ 32 \<and> 2 ^ 24 dvd (j - i)"
      by (rule conjI)
  next
    assume h: "unat (ts ! i) mod 2 ^ 32 = unat (ts ! j) mod 2 ^ 32 \<and> 2 ^ 24 dvd (j - i)"
    then have "(?c + i + 1) mod 2 ^ 24 = (?c + j + 1) mod 2 ^ 24" by (simp only: ce)
    then have c: "counter_of (ids ! i) = counter_of (ids ! j)" by (simp only: ci cj)
    from h have t: "timestamp_of (ids ! i) = timestamp_of (ids ! j)" by (simp only: ti tj)
    have f: "fingerprint_of (ids ! i) = fingerprint_of (ids ! j)" by (simp only: fi fj)
    from li lj t f c show "ids ! i = ids ! j" by (rule identifier_eqI)
  qed
qed

lemma example_state_wf: "length (machineId example_state) = 3"
  by (simp add: example_state_def)

lemma same_second_collision:
  assumes wf: "length (machineId s) = 3" and n: "2 ^ 24 < n"
  shows "length (ids_of (calls s (replicate n t))) = n
     \<and> ids_of (calls s (replicate n t)) ! 0 = ids_of (calls s (replicate n t)) ! (2 ^ 24)"
proof -
  from calls_total[OF wf, of "replicate n t"] obtain ids s' where
    run: "calls s (replicate n t) = Inr (ids, s')" and len: "length ids = n" by auto
  have j: "2 ^ 24 < length (replicate n t)" using n by (simp only: length_replicate)
  have "replicate n t ! 0 = t" "replicate n t ! (2 ^ 24) = t"
    using n by (simp_all only: nth_replicate)
  then have "unat (replicate n t ! 0) mod 2 ^ 32 = unat (replicate n t ! (2 ^ 24)) mod 2 ^ 32
     \<and> (2::nat) ^ 24 dvd (2 ^ 24 - 0)"
    by (simp only: diff_zero dvd_refl simp_thms)
  then have "ids ! 0 = ids ! (2 ^ 24)"
    using calls_eq_iff[OF wf run _ j, of 0] by blast
  then show ?thesis using len by (simp only: run ids_of_def sum.case prod.case simp_thms)
qed

lemma calls_counter_step:
  assumes wf: "length (machineId s) = 3" and run: "calls s ts = Inr (ids, s')"
    and ij: "i \<le> j" "j < length ts"
  shows "counter_of (ids ! j) = (counter_of (ids ! i) + (j - i)) mod 2 ^ 24"
proof -
  let ?c = "unat (objectIdCounter s)"
  have i: "i < length ts" using ij by (rule le_less_trans)
  from calls_fields[OF wf run i]
  have ci: "counter_of (ids ! i) = (?c + i + 1) mod 2 ^ 24" by blast
  from calls_fields[OF wf run ij(2)]
  have cj: "counter_of (ids ! j) = (?c + j + 1) mod 2 ^ 24" by blast
  have "?c + i + 1 + (j - i) = ?c + j + 1" using ij(1) by simp
  then have "(?c + j + 1) mod 2 ^ 24 = ((?c + i + 1) mod 2 ^ 24 + (j - i)) mod 2 ^ 24"
    by (simp only: mod_add_left_eq)
  then show ?thesis by (simp only: ci cj)
qed

lemma example_run:
  "calls example_state [1600000000, 1600000000, 1600000001]
     = Inr ([[0x5F, 0x5E, 0x10, 0x00, 0xAB, 0xCD, 0xEF, 0x23, 0x45, 0xFF, 0xFF, 0xFE],
             [0x5F, 0x5E, 0x10, 0x00, 0xAB, 0xCD, 0xEF, 0x23, 0x45, 0xFF, 0xFF, 0xFF],
             [0x5F, 0x5E, 0x10, 0x01, 0xAB, 0xCD, 0xEF, 0x23, 0x45, 0x00, 0x00, 0x00]],
            \<lparr>machineId = [0xAB, 0xCD, 0xEF], processId = 0x12345,
               objectIdCounter = 0x1000000\<rparr>)"
  by (simp add: example_state_def NewObjectID_explicit)

lemma example_run_same_second:
  "calls example_state [1600000000, 1600000000, 1600000000]
     = Inr ([[0x5F, 0x5E, 0x10, 0x00, 0xAB, 0xCD, 0xEF, 0x23, 0x45, 0xFF, 0xFF, 0xFE],
             [0x5F, 0x5E, 0x10, 0x00, 0xAB, 0xCD, 0xEF, 0x23, 0x45, 0xFF, 0xFF, 0xFF],
             [0x5F, 0x5E, 0x10, 0x00, 0xAB, 0xCD, 0xEF, 0x23, 0x45, 0x00, 0x00, 0x00]],
            \<lparr>machineId = [0xAB, 0xCD, 0xEF], processId = 0x12345,
               objectIdCounter = 0x1000000\<rparr>)"
  by (simp add: example_state_def NewObjectID_explicit)

section \<open>The machine identifier and its buffer\<close>

lemma addrs_loop_eq:
  "addrs_loop L buf as
     = buf @ concat (map (IP_String L) (filter (\<lambda>ip. \<not> IsLoopback L ip) (ipnet_addresses as)))"
  by (induction L buf as rule: addrs_loop.induct) (simp_all add: WriteString_def)

lemma interfaces_loop_eq:
  "interfaces_loop L buf netInterfaces
     = buf @ concat (map (interface_part L ipnet_addresses) netInterfaces)"
proof (induction netInterfaces arbitrary: buf)
  case Nil
  then show ?case by simp
next
  case (Cons i rest)
  show ?case
    by (cases "Addrs i")
      (simp_all add: Cons.IH interface_part_def listed_def addrs_loop_eq WriteString_def)
qed

lemma sourceBuf_eq: "sourceBuf L h = ipnet_buffer L h"
  by (simp add: sourceBuf_def ipnet_buffer_def hostname_part_def interfaces_part_def
      interfaces_loop_eq WriteString_def split: sum.splits)

lemma replicate_3: "replicate 3 x = [x, x, x]"
  by (simp add: eval_nat_numeral)

lemma copy_3: "3 \<le> length src \<Longrightarrow> copy [x, y, z] src = take 3 src"
  by (simp add: copy_def eval_nat_numeral)

lemma readMachineId_eq: "readMachineId L h = copy [0, 0, 0] (md5_Sum L (ipnet_buffer L h))"
  by (simp only: readMachineId_def sourceBuf_eq replicate_3)

lemma md5_examples:
  "md5 [] = [0xD4, 0x1D, 0x8C, 0xD9, 0x8F, 0x00, 0xB2, 0x04,
             0xE9, 0x80, 0x09, 0x98, 0xEC, 0xF8, 0x42, 0x7E]"
  "md5 ''abc'' = [0x90, 0x01, 0x50, 0x98, 0x3C, 0xD2, 0x4F, 0xB0,
                  0xD6, 0x96, 0x3F, 0x7D, 0x28, 0xE1, 0x7F, 0x72]"
  "md5 ''db110.0.0.102:00:00:00:00:01''
     = [0x26, 0x7C, 0xFF, 0xC6, 0xB6, 0xE8, 0xC4, 0xC7,
        0x06, 0x42, 0x01, 0x5D, 0x8A, 0xF7, 0xF6, 0xA3]"
  "md5 ''db110.0.0.110.0.0.202:00:00:00:00:01''
     = [0x5B, 0xFD, 0xEC, 0x5D, 0x7F, 0xCE, 0xFA, 0x2B,
        0x41, 0x91, 0x5B, 0xC0, 0x3E, 0xF9, 0x08, 0xF1]"
  "md5 ''10.0.0.102:00:00:00:00:01''
     = [0xEE, 0x98, 0x7F, 0xC2, 0x50, 0x41, 0xF1, 0x80,
        0x01, 0xAF, 0x72, 0xBB, 0x3A, 0x4F, 0xE3, 0xAE]"
  "md5 ''db1'' = [0xD3, 0x84, 0xA9, 0x47, 0xDA, 0xA0, 0x80, 0xF3,
                  0x92, 0x57, 0x1D, 0x6B, 0x00, 0x39, 0xDD, 0x30]"
  by code_simp+

lemma md5_length: "length (md5 m) = 16"
  by (simp add: md5_def le_bytes_def split: prod.splits)

lemma example_buffers:
  "sourceBuf example_stdlib example_host = ''db110.0.0.102:00:00:00:00:01''"
  "described_buffer example_stdlib example_host = ''db110.0.0.110.0.0.202:00:00:00:00:01''"
  "ipnet_buffer example_stdlib example_host = ''db110.0.0.102:00:00:00:00:01''"
  "ipnet_buffer example_stdlib bare_host = []"
  "interfaces_part example_stdlib ipnet_addresses nameless_host = ''10.0.0.102:00:00:00:00:01''"
  "hostname_part offline_host = ''db1''"
  by code_simp+

lemma example_md5_Sum: "md5_Sum example_stdlib = md5"
  by (simp add: example_stdlib_def)

lemma example_readMachineId:
  "readMachineId example_stdlib example_host = [0x26, 0x7C, 0xFF]"
  "readMachineId example_stdlib bare_host = [0xD4, 0x1D, 0x8C]"
  by (simp_all add: readMachineId_eq example_buffers example_md5_Sum md5_examples copy_def)

lemma example_seed:
  "readRandomUint32 example_reader = Inr (0x12345678, \<lparr>avail = [0x99], failure = EOF\<rparr>)"
  by code_simp

lemma example_init:
  "package_init example_stdlib example_host example_reader
     = Inr \<lparr>machineId = [0x26, 0x7C, 0xFF], processId = 74565, objectIdCounter = 305419896\<rparr>"
proof -
  have "Getpid example_host = 74565" by (simp add: example_host_def)
  then show ?thesis by (simp add: package_init_def example_readMachineId example_seed)
qed

section \<open>The claims about \<open>NewObjectID\<close>\<close>

text \<open>
  Claim C1. Every call of \<open>NewObjectID\<close> (in a state whose machine identifier has its 3
  bytes) returns exactly 12 bytes: bytes 0-3 are the Unix seconds of the clock reading,
  converted to an unsigned 32-bit integer (that is, modulo \<open>2\<^sup>3\<^sup>2\<close>) and written
  big-endian; bytes 4-6 are the 3 bytes of the machine identifier; bytes 7-8 are the low 16
  bits of the process identifier, high byte first; bytes 9-11 are the low 24 bits of the
  counter after its increment, big-endian.
\<close>

theorem C1_NewObjectID_layout:
  assumes "length (machineId s) = 3"
  shows "\<exists>b s'. NewObjectID s now = Inr (b, s')
     \<and> length b = 12
     \<and> be_nat (take 4 b) = unat now mod 2 ^ 32
     \<and> take 3 (drop 4 b) = machineId s
     \<and> be_nat (take 2 (drop 7 b)) = unat (processId s) mod 2 ^ 16
     \<and> be_nat (drop 9 b) = unat (objectIdCounter s') mod 2 ^ 24
     \<and> objectIdCounter s' = objectIdCounter s + 1"
proof -
  have t: "unat (ucast now :: u32) mod 2 ^ 32 = unat now mod 2 ^ 32"
    by (simp add: unsigned_ucast_eq take_bit_eq_mod)
  show ?thesis
    unfolding NewObjectID_explicit[OF assms]
    using t nth_list_3[OF assms]
    by (simp add: be_nat_4 be_nat_3 be_nat_2 ucast_signed_drop_bit_8)
qed

theorem C1_NewObjectID_layout_witness:
  "length (machineId example_state) = 3
   \<and> (\<exists>b s'. NewObjectID example_state 1600000000 = Inr (b, s')
     \<and> length b = 12
     \<and> be_nat (take 4 b) = 1600000000
     \<and> take 3 (drop 4 b) = [0xAB, 0xCD, 0xEF]
     \<and> be_nat (take 2 (drop 7 b)) = 0x2345
     \<and> be_nat (drop 9 b) = 0xFFFFFE)"
  using C1_NewObjectID_layout [of example_state 1600000000]
  by (auto simp add: example_state_def)

text \<open>
  Claim C2, as amended. The claim as stated fails: the identifier carries only the low 24
  bits of the counter, so two calls \<open>2\<^sup>2\<^sup>4\<close> calls apart in the same second return the
  same identifier. What holds: any two calls of one process that are fewer than
  \<open>2\<^sup>2\<^sup>4\<close> calls apart return distinct identifiers, whatever their clock readings, so
  in particular within one second. Two identifiers of a run are equal exactly when their
  32-bit timestamps are equal and the number of calls between them is a multiple of
  \<open>2\<^sup>2\<^sup>4\<close>.
\<close>

theorem C2_distinct_within_2_24:
  assumes "length (machineId s) = 3"
  shows "\<exists>ids s'. calls s ts = Inr (ids, s') \<and> length ids = length ts
     \<and> (\<forall>i j. i < j \<and> j < length ts \<and> j - i < 2 ^ 24 \<longrightarrow> ids ! i \<noteq> ids ! j)
     \<and> (\<forall>i j. i \<le> j \<and> j < length ts \<longrightarrow>
           (ids ! i = ids ! j \<longleftrightarrow>
              unat (ts ! i) mod 2 ^ 32 = unat (ts ! j) mod 2 ^ 32 \<and> 2 ^ 24 dvd (j - i)))"
proof -
  from calls_total[OF assms, of ts] obtain ids s' where
    run: "calls s ts = Inr (ids, s')" and len: "length ids = length ts" by blast
  have same: "ids ! i = ids ! j \<longleftrightarrow>
      unat (ts ! i) mod 2 ^ 32 = unat (ts ! j) mod 2 ^ 32 \<and> 2 ^ 24 dvd (j - i)"
    if "i \<le> j \<and> j < length ts" for i j
    using calls_eq_iff[OF assms run, of i j] that by blast
  have "ids ! i \<noteq> ids ! j" if "i < j" "j < length ts" "j - i < 2 ^ 24" for i j
  proof
    assume "ids ! i = ids ! j"
    moreover have "i \<le> j" using that(1) by simp
    ultimately have "2 ^ 24 dvd (j - i)"
      using calls_eq_iff[OF assms run _ that(2), of i] by blast
    then have "2 ^ 24 \<le> j - i" using that(1) by (intro dvd_imp_le) simp_all
    then show False using that(3) by simp
  qed
  with same show ?thesis using run len by blast
qed

theorem C2_distinct_within_2_24_witness:
  "length (machineId example_state) = 3
   \<and> (\<exists>ids s'. calls example_state [1600000000, 1600000000] = Inr (ids, s')
        \<and> ids ! 0 \<noteq> ids ! 1)"
proof -
  from C2_distinct_within_2_24 [OF example_state_wf, of "[1600000000, 1600000000]"]
  obtain ids s' where run: "calls example_state [1600000000, 1600000000] = Inr (ids, s')"
    and d: "\<forall>i j. i < j \<and> j < length [1600000000 :: i64, 1600000000] \<and> j - i < 2 ^ 24
          \<longrightarrow> ids ! i \<noteq> ids ! j"
    by blast
  have "(0::nat) < 1 \<and> 1 < length [1600000000 :: i64, 1600000000] \<and> (1::nat) - 0 < 2 ^ 24"
    by simp
  with d have "ids ! 0 \<noteq> ids ! 1" by blast
  with run example_state_wf show ?thesis by blast
qed

theorem C2_counterexample:
  "length (ids_of (calls example_state (replicate (2 ^ 24 + 1) 1600000000))) = 2 ^ 24 + 1
   \<and> ids_of (calls example_state (replicate (2 ^ 24 + 1) 1600000000)) ! 0
     = ids_of (calls example_state (replicate (2 ^ 24 + 1) 1600000000)) ! (2 ^ 24)"
  by (rule same_second_collision [OF example_state_wf]) simp

text \<open>
  Claim C3, as amended. The claim as stated fails for two calls that are not consecutive.
  What holds: the counter is incremented by 1 in each call, wrapping at \<open>2\<^sup>3\<^sup>2\<close>, and
  the low 24 bits of the value after the increment are written to bytes 9-11; so the
  counter field of the call right after \<open>a\<close> is \<open>a\<close>'s plus 1 modulo \<open>2\<^sup>2\<^sup>4\<close>, and the
  counter field of the \<open>k\<close>-th call after \<open>a\<close> is \<open>a\<close>'s plus \<open>k\<close> modulo \<open>2\<^sup>2\<^sup>4\<close>.
\<close>

theorem C3_counter_steps:
  assumes "length (machineId s) = 3"
  shows "\<exists>ids s'. calls s ts = Inr (ids, s') \<and> length ids = length ts
     \<and> objectIdCounter s' = objectIdCounter s + of_nat (length ts)
     \<and> (\<forall>i. i < length ts \<longrightarrow>
           counter_of (ids ! i) = unat (objectIdCounter s + of_nat (Suc i)) mod 2 ^ 24)
     \<and> (\<forall>i. Suc i < length ts \<longrightarrow>
           counter_of (ids ! Suc i) = (counter_of (ids ! i) + 1) mod 2 ^ 24)
     \<and> (\<forall>i j. i \<le> j \<and> j < length ts \<longrightarrow>
           counter_of (ids ! j) = (counter_of (ids ! i) + (j - i)) mod 2 ^ 24)"
proof -
  from calls_total[OF assms, of ts] obtain ids where
    run: "calls s ts = Inr (ids, s\<lparr>objectIdCounter := objectIdCounter s + of_nat (length ts)\<rparr>)"
    and len: "length ids = length ts" by blast
  have a: "counter_of (ids ! i) = unat (objectIdCounter s + of_nat (Suc i)) mod 2 ^ 24"
    if "i < length ts" for i
  proof -
    from calls_fields[OF assms run that]
    have "counter_of (ids ! i) = (unat (objectIdCounter s) + i + 1) mod 2 ^ 24" by blast
    also have "unat (objectIdCounter s) + i + 1 = unat (objectIdCounter s) + Suc i" by simp
    finally show ?thesis by (simp only: unat_add_of_nat_mod)
  qed
  have b: "counter_of (ids ! Suc i) = (counter_of (ids ! i) + 1) mod 2 ^ 24"
    if "Suc i < length ts" for i
    using calls_counter_step[OF assms run _ that, of i] by simp
  have c: "counter_of (ids ! j) = (counter_of (ids ! i) + (j - i)) mod 2 ^ 24"
    if "i \<le> j \<and> j < length ts" for i j
    using calls_counter_step[OF assms run, of i j] that by blast
  from run len a b c show ?thesis by auto
qed

theorem C3_counter_steps_witness:
  "length (machineId example_state) = 3
   \<and> (\<exists>ids s'. calls example_state [1600000000, 1600000000, 1600000001] = Inr (ids, s')
        \<and> objectIdCounter s' = objectIdCounter example_state + 3
        \<and> counter_of (ids ! 0) = 0xFFFFFE
        \<and> counter_of (ids ! 1) = (counter_of (ids ! 0) + 1) mod 2 ^ 24
        \<and> counter_of (ids ! 2) = (counter_of (ids ! 1) + 1) mod 2 ^ 24
        \<and> counter_of (ids ! 2) = (counter_of (ids ! 0) + 2) mod 2 ^ 24)"
proof -
  from C3_counter_steps [OF example_state_wf, of "[1600000000, 1600000000, 1600000001]"]
  obtain ids s' where
    run: "calls example_state [1600000000, 1600000000, 1600000001] = Inr (ids, s')"
    and st: "objectIdCounter s' = objectIdCounter example_state
          + of_nat (length [1600000000 :: i64, 1600000000, 1600000001])"
    and a: "\<forall>i. i < length [1600000000 :: i64, 1600000000, 1600000001] \<longrightarrow>
           counter_of (ids ! i) = unat (objectIdCounter example_state + of_nat (Suc i)) mod 2 ^ 24"
    and b: "\<forall>i. Suc i < length [1600000000 :: i64, 1600000000, 1600000001] \<longrightarrow>
           counter_of (ids ! Suc i) = (counter_of (ids ! i) + 1) mod 2 ^ 24"
    and c: "\<forall>i j. i \<le> j \<and> j < length [1600000000 :: i64, 1600000000, 1600000001] \<longrightarrow>
           counter_of (ids ! j) = (counter_of (ids ! i) + (j - i)) mod 2 ^ 24"
    by blast
  from st have 1: "objectIdCounter s' = objectIdCounter example_state + 3" by simp
  from a have 2: "counter_of (ids ! 0) = 0xFFFFFE" by (simp add: example_state_def)
  from b[rule_format, of 0]
  have 3: "counter_of (ids ! 1) = (counter_of (ids ! 0) + 1) mod 2 ^ 24" by simp
  from b[rule_format, of 1]
  have 4: "counter_of (ids ! 2) = (counter_of (ids ! 1) + 1) mod 2 ^ 24"
    by (simp add: numeral_2_eq_2)
  from c[rule_format, of 0 2]
  have 5: "counter_of (ids ! 2) = (counter_of (ids ! 0) + 2) mod 2 ^ 24" by simp
  from run 1 2 3 4 5 example_state_wf show ?thesis by blast
qed

theorem C3_counterexample:
  "counter_of (ids_of (calls example_state [1600000000, 1600000000, 1600000000]) ! 2)
     \<noteq> (counter_of (ids_of (calls example_state [1600000000, 1600000000, 1600000000]) ! 0) + 1)
         mod 2 ^ 24"
  unfolding example_run_same_second
  by (simp add: ids_of_def counter_of_def be_nat_def)

text \<open>
  Claim C7. \<open>NewObjectID\<close> is total: in every state whose machine identifier has its 3
  bytes, with any process identifier, any counter and any clock reading, the call returns a
  12-byte identifier and a state of the same kind; and package initialisation, when it
  succeeds, yields such a state. The only panics in the model of \<open>NewObjectID\<close> are the
  bounds checks on the machine identifier, which can therefore never fire.
\<close>

theorem C7_NewObjectID_total:
  "(length (machineId s) = 3 \<longrightarrow>
      (\<exists>b s'. NewObjectID s now = Inr (b, s') \<and> length b = 12 \<and> length (machineId s') = 3))
   \<and> (package_init L h r = Inr s0 \<longrightarrow> length (machineId s0) = 3)"
proof -
  have "length (machineId s0) = 3" if "package_init L h r = Inr s0"
    using package_init_state[OF that] readMachineId_length[of L h] by simp
  moreover have "\<exists>b s'. NewObjectID s now = Inr (b, s') \<and> length b = 12 \<and> length (machineId s') = 3"
    if "length (machineId s) = 3"
    unfolding NewObjectID_explicit[OF that] using that by simp
  ultimately show ?thesis by blast
qed

theorem C7_NewObjectID_total_witness:
  "length (machineId example_state) = 3
   \<and> (\<exists>b s'. NewObjectID example_state 1600000000 = Inr (b, s') \<and> length b = 12)
   \<and> (\<exists>s0. package_init example_stdlib example_host example_reader = Inr s0
         \<and> length (machineId s0) = 3)"
  using C7_NewObjectID_total [of example_state 1600000000 example_stdlib example_host
      example_reader "\<lparr>machineId = [0x26, 0x7C, 0xFF], processId = 74565, objectIdCounter = 305419896\<rparr>"]
    example_init
  by (auto simp add: example_state_def)

lemma example_init_run:
  "calls \<lparr>machineId = [0x26, 0x7C, 0xFF], processId = 74565, objectIdCounter = 305419896\<rparr>
      [1600000000, 1600000002]
     = Inr ([[0x5F, 0x5E, 0x10, 0x00, 0x26, 0x7C, 0xFF, 0x23, 0x45, 0x34, 0x56, 0x79],
             [0x5F, 0x5E, 0x10, 0x02, 0x26, 0x7C, 0xFF, 0x23, 0x45, 0x34, 0x56, 0x7A]],
            \<lparr>machineId = [0x26, 0x7C, 0xFF], processId = 74565, objectIdCounter = 305419898\<rparr>)"
  by (simp add: NewObjectID_explicit)

text \<open>
  Claim C4. The machine identifier and the process identifier are computed once, by package
  initialisation, and no call of \<open>NewObjectID\<close> changes them: in every run of calls after
  initialisation, bytes 4-8 of every identifier are the 3 bytes of \<open>readMachineId\<close>
  followed by the low 16 bits of the process identifier, the same in all calls, and the
  state after the run still holds the same machine and process identifiers.
\<close>

theorem C4_fingerprint_fixed:
  assumes "package_init L h r = Inr s0"
  shows "\<exists>ids s'. calls s0 ts = Inr (ids, s')
     \<and> length ids = length ts
     \<and> (\<forall>b \<in> set ids. fingerprint_of b
           = readMachineId L h @ [ucast (drop_bit 8 (Getpid h)), ucast (Getpid h)])
     \<and> machineId s' = readMachineId L h
     \<and> processId s' = Getpid h"
proof -
  from package_init_state[OF assms] have m: "machineId s0 = readMachineId L h"
    and p: "processId s0 = Getpid h" by simp_all
  have wf: "length (machineId s0) = 3" using m readMachineId_length[of L h] by simp
  from calls_total[OF wf, of ts] obtain ids where
    run: "calls s0 ts = Inr (ids, s0\<lparr>objectIdCounter := objectIdCounter s0 + of_nat (length ts)\<rparr>)"
    and len: "length ids = length ts" by blast
  have "fingerprint_of b = readMachineId L h @ [ucast (drop_bit 8 (Getpid h)), ucast (Getpid h)]"
    if "b \<in> set ids" for b
  proof -
    from that obtain k where "k < length ids" "b = ids ! k" by (auto simp add: in_set_conv_nth)
    then show ?thesis using calls_fields[OF wf run, of k] len m p by simp
  qed
  then show ?thesis using run len m p by simp
qed

theorem C4_fingerprint_fixed_witness:
  "\<exists>s0 ids s'. package_init example_stdlib example_host example_reader = Inr s0
     \<and> calls s0 [1600000000, 1600000002] = Inr (ids, s')
     \<and> fingerprint_of (ids ! 0) = [0x26, 0x7C, 0xFF, 0x23, 0x45]
     \<and> fingerprint_of (ids ! 1) = [0x26, 0x7C, 0xFF, 0x23, 0x45]
     \<and> timestamp_of (ids ! 0) \<noteq> timestamp_of (ids ! 1)
     \<and> machineId s' = machineId s0 \<and> processId s' = processId s0"
proof -
  let ?s0 = "\<lparr>machineId = [0x26, 0x7C, 0xFF], processId = 74565, objectIdCounter = 305419896\<rparr>"
  from C4_fingerprint_fixed [OF example_init, of "[1600000000, 1600000002]"]
  obtain ids s' where run: "calls ?s0 [1600000000, 1600000002] = Inr (ids, s')"
    and f: "\<forall>b \<in> set ids. fingerprint_of b
           = readMachineId example_stdlib example_host
               @ [ucast (drop_bit 8 (Getpid example_host)), ucast (Getpid example_host)]"
    and m: "machineId s' = readMachineId example_stdlib example_host"
    and p: "processId s' = Getpid example_host"
    by blast
  have r: "readMachineId example_stdlib example_host = [0x26, 0x7C, 0xFF]"
    by (rule example_readMachineId)
  have g: "Getpid example_host = 74565" by (simp add: example_host_def)
  from run have ids: "ids = [[0x5F, 0x5E, 0x10, 0x00, 0x26, 0x7C, 0xFF, 0x23, 0x45, 0x34, 0x56, 0x79],
             [0x5F, 0x5E, 0x10, 0x02, 0x26, 0x7C, 0xFF, 0x23, 0x45, 0x34, 0x56, 0x7A]]"
    unfolding example_init_run by simp
  have "ids ! 0 \<in> set ids" "ids ! 1 \<in> set ids" unfolding ids by simp_all
  with f have "fingerprint_of (ids ! 0) = [0x26, 0x7C, 0xFF, 0x23, 0x45]"
    "fingerprint_of (ids ! 1) = [0x26, 0x7C, 0xFF, 0x23, 0x45]"
    unfolding r g by simp_all
  moreover have "timestamp_of (ids ! 0) \<noteq> timestamp_of (ids ! 1)"
    unfolding ids by (simp add: timestamp_of_def be_nat_def)
  moreover have "machineId s' = machineId ?s0" "processId s' = processId ?s0"
    using m p unfolding r g by simp_all
  ultimately show ?thesis using example_init run by blast
qed

text \<open>
  Claim C6, as amended. The claim as stated fails: within one second the byte order follows
  the 24-bit counter field, which wraps around. What holds: the byte order of the
  identifiers of one process is the order of their 32-bit timestamp fields, then of their
  counter fields; it agrees with the order of generation for every two calls of which the
  earlier has the smaller timestamp, or the same timestamp while the counter field does
  not wrap around \<open>2\<^sup>2\<^sup>4\<close> between them.
\<close>

theorem C6_byte_order:
  assumes "length (machineId s) = 3"
  shows "\<exists>ids s'. calls s ts = Inr (ids, s') \<and> length ids = length ts
     \<and> (\<forall>i j. i < length ts \<and> j < length ts \<longrightarrow>
           (bytes_less (ids ! i) (ids ! j) \<longleftrightarrow>
              unat (ts ! i) mod 2 ^ 32 < unat (ts ! j) mod 2 ^ 32
              \<or> (unat (ts ! i) mod 2 ^ 32 = unat (ts ! j) mod 2 ^ 32
                  \<and> counter_of (ids ! i) < counter_of (ids ! j))))
     \<and> (\<forall>i j. i < j \<and> j < length ts
             \<and> unat (ts ! i) mod 2 ^ 32 < unat (ts ! j) mod 2 ^ 32 \<longrightarrow>
           bytes_less (ids ! i) (ids ! j))
     \<and> (\<forall>i j. i < j \<and> j < length ts
             \<and> unat (ts ! i) mod 2 ^ 32 = unat (ts ! j) mod 2 ^ 32
             \<and> counter_of (ids ! i) + (j - i) < 2 ^ 24 \<longrightarrow>
           bytes_less (ids ! i) (ids ! j))"
proof -
  from calls_total[OF assms, of ts] obtain ids s' where
    run: "calls s ts = Inr (ids, s')" and len: "length ids = length ts" by blast
  have order: "bytes_less (ids ! i) (ids ! j) \<longleftrightarrow>
      unat (ts ! i) mod 2 ^ 32 < unat (ts ! j) mod 2 ^ 32
      \<or> (unat (ts ! i) mod 2 ^ 32 = unat (ts ! j) mod 2 ^ 32
          \<and> counter_of (ids ! i) < counter_of (ids ! j))"
    if i: "i < length ts" and j: "j < length ts" for i j
  proof -
    from calls_fields[OF assms run i]
    have li: "length (ids ! i) = 12" and ti: "timestamp_of (ids ! i) = unat (ts ! i) mod 2 ^ 32"
      and fi: "fingerprint_of (ids ! i)
         = machineId s @ [ucast (drop_bit 8 (processId s)), ucast (processId s)]"
      by blast+
    from calls_fields[OF assms run j]
    have lj: "length (ids ! j) = 12" and tj: "timestamp_of (ids ! j) = unat (ts ! j) mod 2 ^ 32"
      and fj: "fingerprint_of (ids ! j)
         = machineId s @ [ucast (drop_bit 8 (processId s)), ucast (processId s)]"
      by blast+
    have f: "fingerprint_of (ids ! i) = fingerprint_of (ids ! j)" by (simp only: fi fj)
    from identifier_less_iff[OF li lj f] show ?thesis by (simp only: ti tj)
  qed
  have later: "bytes_less (ids ! i) (ids ! j)"
    if ij: "i < j" "j < length ts"
      and t: "unat (ts ! i) mod 2 ^ 32 < unat (ts ! j) mod 2 ^ 32" for i j
  proof -
    have i: "i < length ts" using ij by (rule less_trans)
    from order[OF i ij(2)] t show ?thesis by blast
  qed
  have same: "bytes_less (ids ! i) (ids ! j)"
    if ij: "i < j" "j < length ts"
      and t: "unat (ts ! i) mod 2 ^ 32 = unat (ts ! j) mod 2 ^ 32"
      and w: "counter_of (ids ! i) + (j - i) < 2 ^ 24" for i j
  proof -
    have i: "i < length ts" using ij by (rule less_trans)
    have le: "i \<le> j" using ij(1) by (rule less_imp_le)
    have "counter_of (ids ! j) = (counter_of (ids ! i) + (j - i)) mod 2 ^ 24"
      using assms run le ij(2) by (rule calls_counter_step)
    also have "\<dots> = counter_of (ids ! i) + (j - i)" using w by (rule mod_less)
    finally have "counter_of (ids ! i) < counter_of (ids ! j)" using ij(1) by simp
    with order[OF i ij(2)] t show ?thesis by blast
  qed
  from run len order later same show ?thesis by blast
qed

theorem C6_byte_order_witness:
  "length (machineId example_state) = 3
   \<and> (\<exists>ids s'. calls example_state [1600000000, 1600000000, 1600000001] = Inr (ids, s')
        \<and> bytes_less (ids ! 0) (ids ! 1) \<and> bytes_less (ids ! 1) (ids ! 2))"
proof -
  let ?ts = "[1600000000 :: i64, 1600000000, 1600000001]"
  from C6_byte_order [OF example_state_wf, of ?ts]
  obtain ids s' where run: "calls example_state ?ts = Inr (ids, s')"
    and later: "\<forall>i j. i < j \<and> j < length ?ts
             \<and> unat (?ts ! i) mod 2 ^ 32 < unat (?ts ! j) mod 2 ^ 32 \<longrightarrow>
           bytes_less (ids ! i) (ids ! j)"
    and same: "\<forall>i j. i < j \<and> j < length ?ts
             \<and> unat (?ts ! i) mod 2 ^ 32 = unat (?ts ! j) mod 2 ^ 32
             \<and> counter_of (ids ! i) + (j - i) < 2 ^ 24 \<longrightarrow>
           bytes_less (ids ! i) (ids ! j)"
    by blast
  from run have ids:
    "ids ! 0 = [0x5F, 0x5E, 0x10, 0x00, 0xAB, 0xCD, 0xEF, 0x23, 0x45, 0xFF, 0xFF, 0xFE]"
    unfolding example_run by auto
  have c0: "counter_of (ids ! 0) = 0xFFFFFE" unfolding ids by (simp add: counter_of_def be_nat_def)
  have "(0::nat) < 1 \<and> 1 < length ?ts
      \<and> unat (?ts ! 0) mod 2 ^ 32 = unat (?ts ! 1) mod 2 ^ 32
      \<and> counter_of (ids ! 0) + (1 - 0) < 2 ^ 24"
    unfolding c0 by simp
  with same have 1: "bytes_less (ids ! 0) (ids ! 1)" by blast
  have "(1::nat) < 2 \<and> 2 < length ?ts
      \<and> unat (?ts ! 1) mod 2 ^ 32 < unat (?ts ! 2) mod 2 ^ 32"
    by simp
  with later have 2: "bytes_less (ids ! 1) (ids ! 2)" by blast
  from run 1 2 example_state_wf show ?thesis by blast
qed

theorem C6_counterexample:
  "bytes_less (ids_of (calls example_state [1600000000, 1600000000, 1600000000]) ! 2)
              (ids_of (calls example_state [1600000000, 1600000000, 1600000000]) ! 1)
   \<and> \<not> bytes_less (ids_of (calls example_state [1600000000, 1600000000, 1600000000]) ! 1)
              (ids_of (calls example_state [1600000000, 1600000000, 1600000000]) ! 2)"
  unfolding example_run_same_second
  by (simp add: ids_of_def)

section \<open>The claims about the machine identifier and the seed\<close>

text \<open>
  Claim C5, as amended. The claim as stated fails: \<open>readMachineId\<close> writes the address of
  an entry of an interface's listing only when the entry is a \<open>*net.IPNet\<close>; an address
  listed as any other kind of \<open>net.Addr\<close> (a \<open>*net.IPAddr\<close>) is skipped. What holds: the
  machine identifier is the first 3 bytes of the digest (16 bytes for MD5) of the buffer
  made of the hostname, when obtainable, followed by, for every interface of the list,
  when obtainable, the string form of every non-loopback address of the \<open>*net.IPNet\<close>
  entries of its listing (none when the listing fails) and then the string of its hardware
  address.
\<close>

theorem C5_machine_fingerprint:
  "sourceBuf L h = ipnet_buffer L h
   \<and> readMachineId L h = copy [0, 0, 0] (md5_Sum L (ipnet_buffer L h))
   \<and> (length (md5_Sum L (ipnet_buffer L h)) = 16 \<longrightarrow>
        readMachineId L h = take 3 (md5_Sum L (ipnet_buffer L h)))
   \<and> (md5_Sum L = md5 \<longrightarrow> readMachineId L h = take 3 (md5 (ipnet_buffer L h)))"
  by (simp add: readMachineId_eq sourceBuf_eq copy_3 md5_length)

theorem C5_machine_fingerprint_witness:
  "length (md5_Sum example_stdlib (ipnet_buffer example_stdlib example_host)) = 16
   \<and> ipnet_buffer example_stdlib example_host = ''db110.0.0.102:00:00:00:00:01''
   \<and> readMachineId example_stdlib example_host = [0x26, 0x7C, 0xFF]"
proof -
  have l: "length (md5_Sum example_stdlib (ipnet_buffer example_stdlib example_host)) = 16"
    by (simp only: example_md5_Sum md5_length)
  from C5_machine_fingerprint [of example_stdlib example_host] l example_md5_Sum
  have "readMachineId example_stdlib example_host
      = take 3 (md5_Sum example_stdlib (ipnet_buffer example_stdlib example_host))"
    and "readMachineId example_stdlib example_host
      = take 3 (md5 (ipnet_buffer example_stdlib example_host))"
    by blast+
  then have "readMachineId example_stdlib example_host = [0x26, 0x7C, 0xFF]"
    by (simp add: example_buffers md5_examples)
  then show ?thesis using l example_buffers(3) by blast
qed

theorem C5_counterexample:
  "sourceBuf example_stdlib example_host = ''db110.0.0.102:00:00:00:00:01''
   \<and> described_buffer example_stdlib example_host = ''db110.0.0.110.0.0.202:00:00:00:00:01''
   \<and> readMachineId example_stdlib example_host = [0x26, 0x7C, 0xFF]
   \<and> take 3 (md5_Sum example_stdlib (described_buffer example_stdlib example_host))
       = [0x5B, 0xFD, 0xEC]"
  by (simp add: example_buffers example_readMachineId example_md5_Sum md5_examples)

text \<open>
  Claim C8. When the hostname lookup fails, \<open>readMachineId\<close> hashes the interface data
  alone and returns the first 3 bytes of that digest; when the interface enumeration
  fails, it hashes the hostname alone and returns the first 3 bytes of that digest;
  \<open>readMachineId\<close> has no error result and always returns 3 bytes; when both fail the
  buffer is empty and the result is the first 3 bytes of the digest of the empty input,
  \<open>d4 1d 8c\<close> for MD5.
\<close>

theorem C8_silent_degradation:
  "(Hostname h = Inl e \<longrightarrow>
      sourceBuf L h = interfaces_part L ipnet_addresses h
      \<and> readMachineId L h = copy [0, 0, 0] (md5_Sum L (interfaces_part L ipnet_addresses h))
      \<and> (3 \<le> length (md5_Sum L (interfaces_part L ipnet_addresses h)) \<longrightarrow>
            readMachineId L h = take 3 (md5_Sum L (interfaces_part L ipnet_addresses h))))
   \<and> (Interfaces h = Inl e' \<longrightarrow>
      sourceBuf L h = hostname_part h
      \<and> readMachineId L h = copy [0, 0, 0] (md5_Sum L (hostname_part h))
      \<and> (3 \<le> length (md5_Sum L (hostname_part h)) \<longrightarrow>
            readMachineId L h = take 3 (md5_Sum L (hostname_part h))))
   \<and> length (readMachineId L h) = 3
   \<and> (Hostname h = Inl e \<and> Interfaces h = Inl e' \<longrightarrow>
        sourceBuf L h = [] \<and> readMachineId L h = copy [0, 0, 0] (md5_Sum L [])
        \<and> (3 \<le> length (md5_Sum L []) \<longrightarrow> readMachineId L h = take 3 (md5_Sum L []))
        \<and> (md5_Sum L = md5 \<longrightarrow> readMachineId L h = [0xD4, 0x1D, 0x8C]))"
proof -
  have src_h: "sourceBuf L h = interfaces_part L ipnet_addresses h" if "Hostname h = Inl e"
    using that by (simp add: sourceBuf_eq ipnet_buffer_def hostname_part_def)
  have id_h: "readMachineId L h = copy [0, 0, 0] (md5_Sum L (interfaces_part L ipnet_addresses h))"
    if "Hostname h = Inl e"
    using src_h[OF that] by (simp add: readMachineId_def replicate_3)
  have take_h: "readMachineId L h = take 3 (md5_Sum L (interfaces_part L ipnet_addresses h))"
    if "Hostname h = Inl e" "3 \<le> length (md5_Sum L (interfaces_part L ipnet_addresses h))"
    using id_h[OF that(1)] that(2) by (simp add: copy_3)
  have src_i: "sourceBuf L h = hostname_part h" if "Interfaces h = Inl e'"
    using that by (simp add: sourceBuf_eq ipnet_buffer_def interfaces_part_def)
  have id_i: "readMachineId L h = copy [0, 0, 0] (md5_Sum L (hostname_part h))"
    if "Interfaces h = Inl e'"
    using src_i[OF that] by (simp add: readMachineId_def replicate_3)
  have take_i: "readMachineId L h = take 3 (md5_Sum L (hostname_part h))"
    if "Interfaces h = Inl e'" "3 \<le> length (md5_Sum L (hostname_part h))"
    using id_i[OF that(1)] that(2) by (simp add: copy_3)
  have 3: "sourceBuf L h = []" if "Hostname h = Inl e" "Interfaces h = Inl e'"
    using that by (simp add: sourceBuf_def)
  have 4: "readMachineId L h = copy [0, 0, 0] (md5_Sum L [])"
    if "Hostname h = Inl e" "Interfaces h = Inl e'"
    using 3[OF that] by (simp add: readMachineId_def replicate_3)
  have 5: "readMachineId L h = take 3 (md5_Sum L [])"
    if "Hostname h = Inl e" "Interfaces h = Inl e'" "3 \<le> length (md5_Sum L [])"
    using 3[OF that(1,2)] that(3) by (simp add: readMachineId_def replicate_3 copy_3)
  have 6: "readMachineId L h = [0xD4, 0x1D, 0x8C]"
    if "Hostname h = Inl e" "Interfaces h = Inl e'" "md5_Sum L = md5"
    using 4[OF that(1,2)] that(3) by (simp add: md5_examples copy_def)
  from src_h id_h take_h src_i id_i take_i 3 4 5 6 readMachineId_length[of L h] show ?thesis by blast
qed

theorem C8_silent_degradation_witness:
  "Hostname bare_host = Inl (Error ''no hostname'')
   \<and> Interfaces bare_host = Inl (Error ''no interfaces'')
   \<and> 3 \<le> length (md5_Sum example_stdlib [])
   \<and> sourceBuf example_stdlib bare_host = []
   \<and> length (readMachineId example_stdlib bare_host) = 3
   \<and> readMachineId example_stdlib bare_host = [0xD4, 0x1D, 0x8C]
   \<and> Hostname nameless_host = Inl (Error ''no hostname'')
   \<and> sourceBuf example_stdlib nameless_host = ''10.0.0.102:00:00:00:00:01''
   \<and> readMachineId example_stdlib nameless_host = [0xEE, 0x98, 0x7F]
   \<and> Interfaces offline_host = Inl (Error ''no interfaces'')
   \<and> sourceBuf example_stdlib offline_host = ''db1''
   \<and> readMachineId example_stdlib offline_host = [0xD3, 0x84, 0xA9]"
proof -
  have a: "Hostname bare_host = Inl (Error ''no hostname'')"
    and b: "Interfaces bare_host = Inl (Error ''no interfaces'')"
    by (simp_all add: bare_host_def)
  have c: "3 \<le> length (md5_Sum example_stdlib m)" for m
    by (simp add: example_md5_Sum md5_length)
  have d: "take 3 (md5_Sum example_stdlib []) = [0xD4, 0x1D, 0x8C]"
    by (simp add: example_md5_Sum md5_examples)
  from C8_silent_degradation [of bare_host "Error ''no hostname''" example_stdlib
      "Error ''no interfaces''"] a b c example_md5_Sum
  have bare: "sourceBuf example_stdlib bare_host = []"
    "length (readMachineId example_stdlib bare_host) = 3"
    "readMachineId example_stdlib bare_host = take 3 (md5_Sum example_stdlib [])"
    "readMachineId example_stdlib bare_host = [0xD4, 0x1D, 0x8C]"
    by blast+
  have n: "Hostname nameless_host = Inl (Error ''no hostname'')"
    by (simp add: nameless_host_def)
  from C8_silent_degradation [of nameless_host "Error ''no hostname''" example_stdlib] n c
  have "sourceBuf example_stdlib nameless_host
      = interfaces_part example_stdlib ipnet_addresses nameless_host"
    "readMachineId example_stdlib nameless_host
      = take 3 (md5_Sum example_stdlib
          (interfaces_part example_stdlib ipnet_addresses nameless_host))"
    by blast+
  then have nameless: "sourceBuf example_stdlib nameless_host = ''10.0.0.102:00:00:00:00:01''"
    "readMachineId example_stdlib nameless_host = [0xEE, 0x98, 0x7F]"
    by (simp_all add: example_buffers example_md5_Sum md5_examples)
  have f: "Interfaces offline_host = Inl (Error ''no interfaces'')"
    by (simp add: offline_host_def)
  from C8_silent_degradation [of offline_host _ example_stdlib "Error ''no interfaces''"] f c
  have "sourceBuf example_stdlib offline_host = hostname_part offline_host"
    "readMachineId example_stdlib offline_host
      = take 3 (md5_Sum example_stdlib (hostname_part offline_host))"
    by blast+
  then have offline: "sourceBuf example_stdlib offline_host = ''db1''"
    "readMachineId example_stdlib offline_host = [0xD3, 0x84, 0xA9]"
    by (simp_all add: example_buffers example_md5_Sum md5_examples)
  from a b c[of "[]"] bare n nameless f offline show ?thesis by simp
qed

lemma le32_bytes:
  fixes b0 b1 b2 b3 :: u8
  defines "w \<equiv> (push_bit 0 (ucast b0) OR push_bit 8 (ucast b1)
                 OR push_bit 16 (ucast b2) OR push_bit 24 (ucast b3) :: u32)"
  shows "ucast w = b0" "ucast (drop_bit 8 w) = b1" "ucast (drop_bit 16 w) = b2"
    "ucast (drop_bit 24 w) = b3"
  unfolding w_def
  by (rule bit_word_eqI; auto simp add: bit_simps dest: bit_imp_le_length)+

lemma unat_le32:
  fixes b0 b1 b2 b3 :: u8
  shows "unat (push_bit 0 (ucast b0) OR push_bit 8 (ucast b1)
                 OR push_bit 16 (ucast b2) OR push_bit 24 (ucast b3) :: u32)
         = be_nat [b3, b2, b1, b0]"
proof -
  let ?w = "(push_bit 0 (ucast b0) OR push_bit 8 (ucast b1)
                 OR push_bit 16 (ucast b2) OR push_bit 24 (ucast b3) :: u32)"
  have "be_nat [b3, b2, b1, b0]
      = be_nat [ucast (drop_bit 24 ?w), ucast (drop_bit 16 ?w), ucast (drop_bit 8 ?w), ucast ?w]"
    by (simp only: le32_bytes)
  also have "\<dots> = unat ?w mod 2 ^ 32" by (rule be_nat_4)
  also have "\<dots> = unat ?w"
  proof -
    have "unat ?w < 2 ^ 32" using unsigned_less[of ?w] by simp
    then show ?thesis by (rule mod_less)
  qed
  finally show ?thesis by simp
qed

lemma readRandomUint32_ok:
  assumes "4 \<le> length (avail r)"
  shows "\<exists>w. readRandomUint32 r = Inr (w, r\<lparr>avail := drop 4 (avail r)\<rparr>)
      \<and> unat w = be_nat (rev (take 4 (avail r)))"
proof -
  from assms obtain b0 b1 b2 b3 rest where a: "avail r = b0 # b1 # b2 # b3 # rest"
    by (auto simp add: Suc_le_length_iff eval_nat_numeral)
  show ?thesis
    using unat_le32[of b0 b1 b2 b3]
    by (simp add: readRandomUint32_def ReadFull_def a copy_def split: error.splits)
qed

lemma readRandomUint32_fail_msg:
  assumes "length (avail r) < 4"
  shows "\<exists>msg. readRandomUint32 r = Inl (PanicError msg)
     \<and> package_init L h r = Inl (PanicError msg)"
  using assms
  by (simp add: package_init_def readRandomUint32_def ReadFull_def ErrUnexpectedEOF_def
      split: error.splits)

text \<open>
  Claim C9. Seeding the counter reads exactly 4 bytes from the random source and reads them
  as an unsigned 32-bit integer, least significant byte first; when the source does not
  deliver 4 bytes, \<open>readRandomUint32\<close> panics, and so does package initialisation. This is
  the only way in which initialisation fails.
\<close>

theorem C9_seed:
  "(4 \<le> length (avail r) \<longrightarrow>
      (\<exists>w r'. readRandomUint32 r = Inr (w, r')
         \<and> unat w = be_nat (rev (take 4 (avail r)))
         \<and> avail r' = drop 4 (avail r)
         \<and> (\<exists>s. package_init L h r = Inr s \<and> objectIdCounter s = w)))
   \<and> (length (avail r) < 4 \<longrightarrow>
      (\<exists>msg. readRandomUint32 r = Inl (PanicError msg)
         \<and> package_init L h r = Inl (PanicError msg)))
   \<and> ((\<exists>e. package_init L h r = Inl e) \<longleftrightarrow> length (avail r) < 4)"
proof -
  have ok: "\<exists>w r'. readRandomUint32 r = Inr (w, r')
         \<and> unat w = be_nat (rev (take 4 (avail r)))
         \<and> avail r' = drop 4 (avail r)
         \<and> (\<exists>s. package_init L h r = Inr s \<and> objectIdCounter s = w)"
    if "4 \<le> length (avail r)"
  proof -
    from readRandomUint32_ok[OF that] obtain w where
      w: "readRandomUint32 r = Inr (w, r\<lparr>avail := drop 4 (avail r)\<rparr>)"
      "unat w = be_nat (rev (take 4 (avail r)))" by blast
    then show ?thesis by (simp add: package_init_def)
  qed
  have bad: "\<exists>msg. readRandomUint32 r = Inl (PanicError msg)
         \<and> package_init L h r = Inl (PanicError msg)"
    if "length (avail r) < 4"
    using that by (rule readRandomUint32_fail_msg)
  have "(\<exists>e. package_init L h r = Inl e) \<longleftrightarrow> length (avail r) < 4"
  proof (cases "length (avail r) < 4")
    case True
    with bad show ?thesis by blast
  next
    case False
    then have "4 \<le> length (avail r)" by simp
    from ok[OF this] have "\<exists>s. package_init L h r = Inr s" by blast
    with False show ?thesis by auto
  qed
  with ok bad show ?thesis by blast
qed

theorem C9_seed_witness:
  "4 \<le> length (avail example_reader)
   \<and> (\<exists>w r'. readRandomUint32 example_reader = Inr (w, r')
        \<and> unat w = 0x12345678 \<and> avail r' = [0x99])
   \<and> length (avail failing_reader) < 4
   \<and> (\<exists>msg. package_init example_stdlib example_host failing_reader = Inl (PanicError msg))"
proof -
  have a: "4 \<le> length (avail example_reader)" by (simp add: example_reader_def)
  have b: "length (avail failing_reader) < 4" by (simp add: failing_reader_def)
  from C9_seed [of example_reader example_stdlib example_host] a
  obtain w r' where w: "readRandomUint32 example_reader = Inr (w, r')"
    "unat w = be_nat (rev (take 4 (avail example_reader)))"
    "avail r' = drop 4 (avail example_reader)" by blast
  have "be_nat (rev (take 4 (avail example_reader))) = 0x12345678"
    by (simp add: example_reader_def be_nat_def)
  moreover have "drop 4 (avail example_reader) = [0x99]" by (simp add: example_reader_def)
  ultimately have c: "\<exists>w r'. readRandomUint32 example_reader = Inr (w, r')
        \<and> unat w = 0x12345678 \<and> avail r' = [0x99]"
    using w by auto
  from C9_seed [of failing_reader example_stdlib example_host] b
  have d: "\<exists>msg. package_init example_stdlib example_host failing_reader = Inl (PanicError msg)"
    by blast
  from a b c d show ?thesis by blast
qed

end
